theory Spec2Isabelle
  imports Main
begin

section \<open>The C library and the hash set used by the filter\<close>

text \<open>
  C strings are modelled as \<open>string\<close> (a list of bytes without the terminating NUL).
  \<open>strstr haystack needle\<close> of the C library returns a pointer to the first occurrence
  of \<open>needle\<close> in \<open>haystack\<close>, or NULL; the model returns the offset of that first
  occurrence. The source compares the returned pointer with \<open>haystack\<close> itself, which is
  the test \<open>strstr haystack needle = Some 0\<close>.
\<close>

fun strstr :: "string \<Rightarrow> string \<Rightarrow> nat option" where
  "strstr [] needle = (if needle = [] then Some 0 else None)"
| "strstr (c # cs) needle =
     (if take (length needle) (c # cs) = needle then Some 0
      else map_option Suc (strstr cs needle))"

text \<open>
  Modelled from the spec: \<open>include/hashset.h\<close> (\<open>HashSet\<close>, \<open>hs_init\<close>, \<open>hs_contains\<close>,
  \<open>hs_add\<close>) is not part of the sources at hand. The specification describes it as a
  seen-set keyed by exact text equality, so it is the set of the strings added so far.
\<close>

type_synonym HashSet = "string set"

definition hs_init :: HashSet where
  "hs_init = {}"

definition hs_contains :: "HashSet \<Rightarrow> string \<Rightarrow> bool" where
  "hs_contains hset key = (key \<in> hset)"

definition hs_add :: "HashSet \<Rightarrow> string \<Rightarrow> HashSet" where
  "hs_add hset key = insert key hset"

section \<open>makeSelection\<close>

text \<open>
  The two \<open>for\<close> loops of \<open>makeSelection\<close>. The list argument is what is left of
  \<open>historyFileItems\<close> from index \<open>i\<close> on, \<open>sel\<close> is the filled part of the global array
  \<open>selection\<close>, so \<open>selectionCount\<close> is \<open>length sel\<close>. A NULL \<open>prefix\<close> is \<open>None\<close>.
  The loop condition \<open>selectionCount < maxSelectionCount\<close> is tested before every item.
\<close>

fun prefix_loop ::
  "string option \<Rightarrow> string list \<Rightarrow> int \<Rightarrow> HashSet \<Rightarrow> string list \<Rightarrow> HashSet \<times> string list"
where
  "prefix_loop prefix [] maxSelectionCount hset sel = (hset, sel)"
| "prefix_loop prefix (item # items) maxSelectionCount hset sel =
     (if int (length sel) < maxSelectionCount then
        (if \<not> hs_contains hset item then
           (case prefix of
              None \<Rightarrow> prefix_loop prefix items maxSelectionCount (hs_add hset item) (sel @ [item])
            | Some p \<Rightarrow>
                if strstr item p = Some 0
                then prefix_loop prefix items maxSelectionCount (hs_add hset item) (sel @ [item])
                else prefix_loop prefix items maxSelectionCount hset sel)
         else prefix_loop prefix items maxSelectionCount hset sel)
      else (hset, sel))"

fun substring_loop ::
  "string \<Rightarrow> string list \<Rightarrow> int \<Rightarrow> HashSet \<Rightarrow> string list \<Rightarrow> HashSet \<times> string list"
where
  "substring_loop p [] maxSelectionCount hset sel = (hset, sel)"
| "substring_loop p (item # items) maxSelectionCount hset sel =
     (if int (length sel) < maxSelectionCount then
        (if \<not> hs_contains hset item then
           (case strstr item p of
              None \<Rightarrow> substring_loop p items maxSelectionCount hset sel
            | Some off \<Rightarrow>
                if off \<noteq> 0
                then substring_loop p items maxSelectionCount (hs_add hset item) (sel @ [item])
                else substring_loop p items maxSelectionCount hset sel)
         else substring_loop p items maxSelectionCount hset sel)
      else (hset, sel))"

text \<open>
  \<open>makeSelection prefix historyFileItems maxSelectionCount\<close> returns the filled part of
  \<open>selection\<close>; the C function returns its length and leaves the entries in the global
  array. \<open>historyFileItemsCount\<close> is the length of the list. \<open>maxSelectionCount\<close> is a C
  \<open>int\<close> and may be zero or negative (a terminal of fewer than seven rows); the loops then
  write nothing.
\<close>

definition makeSelection :: "string option \<Rightarrow> string list \<Rightarrow> int \<Rightarrow> string list" where
  "makeSelection prefix historyFileItems maxSelectionCount =
     (case prefix_loop prefix historyFileItems maxSelectionCount hs_init [] of
        (hset, sel) \<Rightarrow>
          (case prefix of
             None \<Rightarrow> sel
           | Some p \<Rightarrow>
               if int (length sel) < maxSelectionCount
               then snd (substring_loop p historyFileItems maxSelectionCount hset sel)
               else sel))"

section \<open>The filter as the specification words it\<close>

text \<open>
  The specification's description of the filter/dedup engine, kept apart from the code:
  first-match-wins deduplication through a seen-set, lines starting with the fragment,
  lines containing the fragment but not at offset zero, and the bounded concatenation
  of the two phases.
\<close>

fun first_wins :: "string set \<Rightarrow> string list \<Rightarrow> string list" where
  "first_wins seen [] = []"
| "first_wins seen (l # ls) =
     (if l \<in> seen then first_wins seen ls else l # first_wins (insert l seen) ls)"

definition starts_with :: "string \<Rightarrow> string \<Rightarrow> bool" where
  "starts_with fragment line = (take (length fragment) line = fragment)"

fun is_substring :: "string \<Rightarrow> string \<Rightarrow> bool" where
  "is_substring fragment [] = (fragment = [])"
| "is_substring fragment (c # cs) =
     (starts_with fragment (c # cs) \<or> is_substring fragment cs)"

definition substring_only :: "string \<Rightarrow> string \<Rightarrow> bool" where
  "substring_only fragment line = (is_substring fragment line \<and> \<not> starts_with fragment line)"

definition spec_filter :: "string list \<Rightarrow> string option \<Rightarrow> int \<Rightarrow> string list" where
  "spec_filter history fragment limit =
     (case fragment of
        None \<Rightarrow> take (nat limit) (first_wins {} history)
      | Some f \<Rightarrow>
          take (nat limit)
            (first_wins {} (filter (starts_with f) history) @
             first_wins {} (filter (substring_only f) history)))"

section \<open>The selection loop\<close>

text \<open>
  Constants of \<open>hstr.c\<close>, and the key codes of \<open>curses.h\<close> that the loop switches on
  (ncurses: \<open>KEY_DOWN\<close> 0402, \<open>KEY_UP\<close> 0403, \<open>KEY_BACKSPACE\<close> 0407, octal).
\<close>

definition SELECTION_CURSOR_IN_PROMPT :: int where
  "SELECTION_CURSOR_IN_PROMPT = - 1"

definition Y_OFFSET_ITEMS :: int where
  "Y_OFFSET_ITEMS = 4"

definition KEY_TERMINAL_RESIZE :: int where
  "KEY_TERMINAL_RESIZE = 410"

definition KEY_CTRL_A :: int where
  "KEY_CTRL_A = 1"

definition KEY_CTRL_E :: int where
  "KEY_CTRL_E = 5"

definition KEY_DOWN :: int where
  "KEY_DOWN = 258"

definition KEY_UP :: int where
  "KEY_UP = 259"

definition KEY_BACKSPACE :: int where
  "KEY_BACKSPACE = 263"

text \<open>The window is represented by its height, the value of \<open>getmaxy\<close>.\<close>

definition getMaxHistoryItems :: "int \<Rightarrow> int" where
  "getMaxHistoryItems maxy = maxy - (Y_OFFSET_ITEMS + 2)"

text \<open>
  The globals \<open>selection\<close> and \<open>selectionSize\<close> and the locals of \<open>selectionLoop\<close>
  that outlive one iteration. \<open>selection\<close> holds the entries of the array that have been
  written since it was allocated. What is drawn on the screen (and the column \<open>x\<close>, which
  is only counted) is left out.
\<close>

record session =
  selection :: "string list"
  selectionSize :: int
  prefix :: string
  selectionCursorPosition :: int
  previousSelectionCursorPosition :: int
  result :: string
  loop_done :: bool

text \<open>\<open>allocSelection\<close> frees the array and allocates a fresh one, nothing written yet.\<close>

definition allocSelection :: "int \<Rightarrow> session \<Rightarrow> session" where
  "allocSelection sz s = s\<lparr>selectionSize := sz, selection := []\<rparr>"

text \<open>
  \<open>makeSelection\<close> with its effect on the globals: it allocates
  \<open>sizeof(char*) * maxSelectionCount\<close> bytes (pointers of eight bytes), fills the array
  and stores and returns the number of entries.
\<close>

definition makeSelection_globals ::
  "string option \<Rightarrow> string list \<Rightarrow> int \<Rightarrow> session \<Rightarrow> int \<times> session"
where
  "makeSelection_globals pfx historyFileItems maxSelectionCount s =
     (let s1 = allocSelection (8 * maxSelectionCount) s;
          sel = makeSelection pfx historyFileItems maxSelectionCount;
          selectionCount = int (length sel)
      in (selectionCount, s1\<lparr>selection := sel, selectionSize := selectionCount\<rparr>))"

text \<open>\<open>printSelection\<close> recomputes the selection and returns its first entry, or the
  empty string.\<close>

definition printSelection ::
  "int \<Rightarrow> string option \<Rightarrow> string list \<Rightarrow> session \<Rightarrow> string \<times> session"
where
  "printSelection maxHistoryItems pfx historyFileItems s =
     (case makeSelection_globals pfx historyFileItems maxHistoryItems s of
        (selectionCount, s1) \<Rightarrow>
          (if selectionCount > 0 then selection s1 ! 0 else [], s1))"

text \<open>
  \<open>strcat(prefix, (char*)(&c))\<close> reads the bytes of the \<open>int\<close> \<open>c\<close> as a C string:
  on a little-endian machine with \<open>int\<close> of four bytes, the bytes of \<open>c\<close> from the
  lowest on, up to the first zero byte. When none of the four bytes is zero (as for
  \<open>ERR = -1\<close>) the read runs past the variable: \<open>None\<close>.
\<close>

definition key_byte :: "int \<Rightarrow> nat \<Rightarrow> int" where
  "key_byte c k = (c div 256 ^ k) mod 256"

definition key_string :: "int \<Rightarrow> string option" where
  "key_string c =
     (if key_byte c 0 = 0 then Some []
      else if key_byte c 1 = 0 then Some [char_of (key_byte c 0)]
      else if key_byte c 2 = 0 then Some [char_of (key_byte c 0), char_of (key_byte c 1)]
      else if key_byte c 3 = 0
        then Some [char_of (key_byte c 0), char_of (key_byte c 1), char_of (key_byte c 2)]
      else None)"

text \<open>The cases of the \<open>switch\<close>. \<open>None\<close> stands for undefined behaviour of the C code.\<close>

definition on_backspace :: "string list \<Rightarrow> int \<Rightarrow> session \<Rightarrow> session option" where
  "on_backspace historyFileItems maxHistoryItems s =
     (let s1 = (if length (prefix s) > 0 then s\<lparr>prefix := butlast (prefix s)\<rparr> else s);
          s2 = (if length (prefix s1) > 0
                then snd (makeSelection_globals (Some (prefix s1)) historyFileItems maxHistoryItems s1)
                else snd (makeSelection_globals None historyFileItems maxHistoryItems s1))
      in case printSelection maxHistoryItems (Some (prefix s2)) historyFileItems s2 of
           (r, s3) \<Rightarrow> Some (s3\<lparr>result := r\<rparr>))"

definition on_up :: "session \<Rightarrow> session option" where
  "on_up s =
     (if selectionCursorPosition s > SELECTION_CURSOR_IN_PROMPT
      then Some (s\<lparr>previousSelectionCursorPosition := selectionCursorPosition s,
                   selectionCursorPosition := selectionCursorPosition s - 1\<rparr>)
      else Some (s\<lparr>previousSelectionCursorPosition := SELECTION_CURSOR_IN_PROMPT\<rparr>))"

definition on_down :: "session \<Rightarrow> session option" where
  "on_down s =
     (let s1 = s\<lparr>previousSelectionCursorPosition := selectionCursorPosition s\<rparr>
      in if selectionCursorPosition s1 + 1 < selectionSize s1
         then Some (s1\<lparr>selectionCursorPosition := selectionCursorPosition s1 + 1\<rparr>)
         else Some (s1\<lparr>selectionCursorPosition := 0\<rparr>))"

text \<open>
  Enter: \<open>selection[selectionCursorPosition]\<close> is read when the cursor is not in the
  prompt; an index outside the written entries reads a NULL array or memory that was
  never written, which is undefined.
\<close>

definition on_enter :: "session \<Rightarrow> session option" where
  "on_enter s =
     (if selectionCursorPosition s \<noteq> SELECTION_CURSOR_IN_PROMPT then
        (if 0 \<le> selectionCursorPosition s
            \<and> selectionCursorPosition s < int (length (selection s))
         then Some ((allocSelection 0
                      (s\<lparr>result := selection s ! nat (selectionCursorPosition s)\<rparr>))
                    \<lparr>loop_done := True\<rparr>)
         else None)
      else Some (s\<lparr>loop_done := True\<rparr>))"

text \<open>
  The default case: every key but 27 is appended to \<open>prefix\<close>, a buffer of 500 bytes
  (writing past it is undefined), and the selection is recomputed.
\<close>

definition on_default :: "string list \<Rightarrow> int \<Rightarrow> int \<Rightarrow> session \<Rightarrow> session option" where
  "on_default historyFileItems maxHistoryItems c s =
     (if c \<noteq> 27 then
        (case key_string c of
           None \<Rightarrow> None
         | Some ks \<Rightarrow>
             if length (prefix s) + length ks + 1 \<le> 500 then
               (let s1 = s\<lparr>prefix := prefix s @ ks\<rparr>
                in case printSelection maxHistoryItems (Some (prefix s1)) historyFileItems s1 of
                     (r, s2) \<Rightarrow> Some (s2\<lparr>result := r\<rparr>))
             else None)
      else Some s)"

text \<open>
  One iteration of the \<open>while\<close> loop of \<open>selectionLoop\<close>: \<open>maxy\<close> is the height of the
  window at this iteration and \<open>c\<close> the key that \<open>wgetch\<close> returns.
\<close>

definition loop_body :: "string list \<Rightarrow> int \<Rightarrow> int \<Rightarrow> session \<Rightarrow> session option" where
  "loop_body historyFileItems maxy c s =
     (let maxHistoryItems = getMaxHistoryItems maxy
      in if c = KEY_TERMINAL_RESIZE \<or> c = KEY_CTRL_A \<or> c = KEY_CTRL_E then Some s
         else if c = 91 then Some s
         else if c = KEY_BACKSPACE \<or> c = 127 then on_backspace historyFileItems maxHistoryItems s
         else if c = KEY_UP \<or> c = 65 then on_up s
         else if c = KEY_DOWN \<or> c = 66 then on_down s
         else if c = 10 then on_enter s
         else on_default historyFileItems maxHistoryItems c s)"

text \<open>
  The state before the first iteration: the selection without a prefix is computed and
  drawn (the value \<open>printSelection\<close> returns is not kept), the cursor is in the prompt,
  \<open>prefix\<close> and \<open>result\<close> are empty.
\<close>

definition selectionLoop_init :: "string list \<Rightarrow> int \<Rightarrow> session" where
  "selectionLoop_init historyFileItems maxy =
     (let s0 = \<lparr>selection = [], selectionSize = 0, prefix = [],
                selectionCursorPosition = SELECTION_CURSOR_IN_PROMPT,
                previousSelectionCursorPosition = SELECTION_CURSOR_IN_PROMPT,
                result = [], loop_done = False\<rparr>
      in snd (printSelection (getMaxHistoryItems maxy) None historyFileItems s0))"

text \<open>
  The loop over the keys read so far, each with the height of the window when it is read.
  The loop ends when \<open>done\<close> (the field \<open>loop_done\<close>) is set; \<open>result\<close> is then what
  \<open>selectionLoop\<close> returns.
\<close>

fun selectionLoop_from :: "string list \<Rightarrow> (int \<times> int) list \<Rightarrow> session \<Rightarrow> session option" where
  "selectionLoop_from historyFileItems [] s = Some s"
| "selectionLoop_from historyFileItems ((maxy, c) # keys) s =
     (if loop_done s then Some s
      else case loop_body historyFileItems maxy c s of
             None \<Rightarrow> None
           | Some s' \<Rightarrow> selectionLoop_from historyFileItems keys s')"

definition selectionLoop :: "string list \<Rightarrow> int \<Rightarrow> (int \<times> int) list \<Rightarrow> session option" where
  "selectionLoop historyFileItems maxy keys =
     selectionLoop_from historyFileItems keys (selectionLoop_init historyFileItems maxy)"

text \<open>A key that the loop takes as one typed character: one byte, none of the cases of
  the \<open>switch\<close>, not 27.\<close>

definition typed_key :: "int \<Rightarrow> bool" where
  "typed_key c = (0 < c \<and> c < 256 \<and> c \<notin> {1, 5, 10, 27, 65, 66, 91, 127})"

text \<open>
  For stating what an edit does: the session after the selection has been recomputed for
  the fragment \<open>p\<close> by \<open>printSelection\<close> and its return value stored in \<open>result\<close>.
\<close>

definition after_edit :: "string list \<Rightarrow> int \<Rightarrow> string \<Rightarrow> session \<Rightarrow> session" where
  "after_edit historyFileItems maxHistoryItems p s =
     (let sel = makeSelection (Some p) historyFileItems maxHistoryItems
      in s\<lparr>prefix := p, selection := sel, selectionSize := int (length sel),
            result := (if sel = [] then [] else sel ! 0)\<rparr>)"

section \<open>Facts about the filter\<close>

subsection \<open>What the pointer tests on strstr mean\<close>

lemma strstr_zero_iff: "strstr line p = Some 0 \<longleftrightarrow> starts_with p line"
  by (cases line) (auto simp: starts_with_def)

lemma strstr_some_iff: "strstr line p \<noteq> None \<longleftrightarrow> is_substring p line"
  by (induction line) (auto simp: starts_with_def)

lemma strstr_positive_iff:
  "(\<exists>off. strstr line p = Some off \<and> off \<noteq> 0) \<longleftrightarrow> substring_only p line"
proof -
  have "(\<exists>off. strstr line p = Some off \<and> off \<noteq> 0) \<longleftrightarrow>
        (strstr line p \<noteq> None \<and> strstr line p \<noteq> Some 0)"
    by auto
  then show ?thesis
    by (simp only: strstr_some_iff strstr_zero_iff substring_only_def)
qed

lemma is_substring_iff: "is_substring p line \<longleftrightarrow> (\<exists>a b. line = a @ p @ b)"
proof (induction line)
  case Nil
  then show ?case by auto
next
  case (Cons c cs)
  show ?case
  proof
    assume "is_substring p (c # cs)"
    then consider "starts_with p (c # cs)" | "is_substring p cs" by auto
    then show "\<exists>a b. c # cs = a @ p @ b"
    proof cases
      case 1
      then have "c # cs = [] @ p @ drop (length p) (c # cs)"
        unfolding starts_with_def by (metis append_Nil append_take_drop_id)
      then show ?thesis by blast
    next
      case 2
      then obtain a b where "cs = a @ p @ b" using Cons.IH by blast
      then have "c # cs = (c # a) @ p @ b" by simp
      then show ?thesis by blast
    qed
  next
    assume "\<exists>a b. c # cs = a @ p @ b"
    then obtain a b where ab: "c # cs = a @ p @ b" by blast
    show "is_substring p (c # cs)"
    proof (cases a)
      case Nil
      then have "starts_with p (c # cs)" using ab by (simp add: starts_with_def)
      then show ?thesis by simp
    next
      case (Cons a0 as)
      then have "cs = as @ p @ b" using ab by simp
      then have "is_substring p cs" using Cons.IH by blast
      then show ?thesis by simp
    qed
  qed
qed

lemma take_Cons_pos: "0 < n \<Longrightarrow> take n (x # xs) = x # take (n - 1) xs"
  by (cases n) auto

lemma nat_diff_snoc:
  "nat (m - int (length (sel @ [x]))) = nat (m - int (length sel)) - 1"
  by simp

lemma take_room:
  "int (length sel) < m \<Longrightarrow>
   take (nat (m - int (length sel))) (x # xs) = x # take (nat (m - int (length sel)) - 1) xs"
  by (rule take_Cons_pos) simp

lemma take_no_room:
  "\<not> int (length sel) < m \<Longrightarrow> take (nat (m - int (length sel))) xs = []"
  by simp

lemma prefix_loop_None_closed:
  "prefix_loop None items m hset sel =
     (let t = take (nat (m - int (length sel))) (first_wins hset items)
      in (hset \<union> set t, sel @ t))"
proof (induction items arbitrary: hset sel)
  case Nil
  then show ?case by simp
next
  case (Cons item items)
  show ?case
    by (cases "int (length sel) < m")
       (simp_all add: Cons.IH hs_contains_def hs_add_def take_room take_no_room
          nat_diff_snoc Let_def del: length_append)
qed

lemma prefix_loop_Some_closed:
  "prefix_loop (Some p) items m hset sel =
     (let t = take (nat (m - int (length sel)))
                (first_wins hset (filter (starts_with p) items))
      in (hset \<union> set t, sel @ t))"
proof (induction items arbitrary: hset sel)
  case Nil
  then show ?case by simp
next
  case (Cons item items)
  show ?case
    by (cases "int (length sel) < m")
       (simp_all add: Cons.IH hs_contains_def hs_add_def strstr_zero_iff take_room
          take_no_room nat_diff_snoc Let_def del: length_append)
qed

lemma substring_loop_closed:
  "substring_loop p items m hset sel =
     (let t = take (nat (m - int (length sel)))
                (first_wins hset (filter (substring_only p) items))
      in (hset \<union> set t, sel @ t))"
proof (induction items arbitrary: hset sel)
  case Nil
  then show ?case by simp
next
  case (Cons item items)
  have acc: "substring_only p item \<longleftrightarrow> (\<exists>off. strstr item p = Some off \<and> off \<noteq> 0)"
    by (simp only: strstr_positive_iff)
  show ?case
    by (cases "int (length sel) < m"; cases "strstr item p")
       (simp_all add: Cons.IH hs_contains_def hs_add_def acc take_room
          take_no_room nat_diff_snoc Let_def del: length_append)
qed

lemma first_wins_subset: "set (first_wins seen ls) \<subseteq> set ls - seen"
  by (induction ls arbitrary: seen) auto

lemma first_wins_distinct: "distinct (first_wins seen ls)"
proof (induction ls arbitrary: seen)
  case Nil
  then show ?case by simp
next
  case (Cons l ls)
  have "l \<notin> set (first_wins (insert l seen) ls)"
    using first_wins_subset [of "insert l seen" ls] by auto
  then show ?case by (simp add: Cons.IH)
qed

lemma first_wins_ignore:
  "S \<inter> set ls = {} \<Longrightarrow> first_wins (S \<union> A) ls = first_wins A ls"
proof (induction ls arbitrary: A)
  case Nil
  then show ?case by simp
next
  case (Cons l ls)
  then have "l \<notin> S" and "S \<inter> set ls = {}" by auto
  then show ?case using Cons.IH [of "insert l A"] Cons.IH [of A] by simp
qed

lemma makeSelection_spec_filter:
  "makeSelection pfx items m = spec_filter items pfx m"
proof (cases pfx)
  case None
  then show ?thesis
    by (simp add: makeSelection_def spec_filter_def prefix_loop_None_closed hs_init_def Let_def)
next
  case (Some p)
  define A where "A = first_wins {} (filter (starts_with p) items)"
  define B where "B = first_wins {} (filter (substring_only p) items)"
  define t where "t = take (nat m) A"
  have disj: "set t \<inter> set (filter (substring_only p) items) = {}"
  proof -
    have "set t \<subseteq> set A" unfolding t_def by (rule set_take_subset)
    also have "\<dots> \<subseteq> {l. starts_with p l}"
      unfolding A_def using first_wins_subset [of "{}" "filter (starts_with p) items"] by auto
    finally show ?thesis by (auto simp: substring_only_def)
  qed
  have B': "first_wins ({} \<union> set t) (filter (substring_only p) items) = B"
    using first_wins_ignore [OF disj, of "{}"] by (simp add: B_def)
  have loop1: "prefix_loop (Some p) items m hs_init [] = (set t, t)"
    by (simp add: prefix_loop_Some_closed hs_init_def Let_def t_def A_def)
  have loop2: "snd (substring_loop p items m (set t) t) = t @ take (nat (m - int (length t))) B"
    using B' by (simp add: substring_loop_closed Let_def)
  have tk: "take (nat m) (A @ B) = t @ take (nat m - length A) B"
    by (simp add: t_def)
  show ?thesis
  proof (cases "int (length t) < m")
    case True
    then have "length A < nat m" unfolding t_def by auto
    then have "t = A" "nat (m - int (length t)) = nat m - length A"
      unfolding t_def by auto
    then show ?thesis
      using True Some loop1 loop2
      by (simp add: makeSelection_def spec_filter_def A_def [symmetric] B_def [symmetric])
  next
    case False
    then have "nat m \<le> length A" unfolding t_def by auto
    then have "take (nat m) (A @ B) = t" unfolding t_def by simp
    then show ?thesis
      using False Some loop1
      by (simp add: makeSelection_def spec_filter_def A_def [symmetric] B_def [symmetric])
  qed
qed

lemma first_wins_later_duplicate:
  "x \<in> seen \<union> set xs \<Longrightarrow> first_wins seen (xs @ x # ys) = first_wins seen (xs @ ys)"
proof (induction xs arbitrary: seen)
  case Nil
  then show ?case by simp
next
  case (Cons z zs)
  then have "x \<in> insert z seen \<union> set zs" by auto
  with Cons.IH [of "insert z seen"] Cons.IH [of seen] Cons.prems show ?case
    by auto
qed

lemma first_wins_filter_later_duplicate:
  assumes "x \<in> set xs"
  shows "first_wins {} (filter P (xs @ x # ys)) = first_wins {} (filter P (xs @ ys))"
proof (cases "P x")
  case True
  with assms have "x \<in> {} \<union> set (filter P xs)" by simp
  from first_wins_later_duplicate [OF this, of "filter P ys"] True show ?thesis by simp
next
  case False
  then show ?thesis by simp
qed

lemma spec_filter_distinct: "distinct (spec_filter history fragment limit)"
proof (cases fragment)
  case None
  then show ?thesis by (simp add: spec_filter_def first_wins_distinct)
next
  case (Some f)
  have "set (first_wins {} (filter (starts_with f) history)) \<inter>
        set (first_wins {} (filter (substring_only f) history)) = {}"
    using first_wins_subset [of "{}" "filter (starts_with f) history"]
          first_wins_subset [of "{}" "filter (substring_only f) history"]
    by (auto simp: substring_only_def)
  then have "distinct (first_wins {} (filter (starts_with f) history) @
                       first_wins {} (filter (substring_only f) history))"
    by (simp add: first_wins_distinct)
  then have "distinct (take (nat limit) (first_wins {} (filter (starts_with f) history) @
                       first_wins {} (filter (substring_only f) history)))"
    by (rule distinct_take)
  then show ?thesis unfolding spec_filter_def Some option.case .
qed

lemma spec_filter_length: "length (spec_filter history fragment limit) \<le> nat limit"
  by (cases fragment) (simp_all add: spec_filter_def del: take_append)

lemma spec_filter_later_duplicate:
  assumes "x \<in> set xs"
  shows "spec_filter (xs @ x # ys) fragment limit = spec_filter (xs @ ys) fragment limit"
proof (cases fragment)
  case None
  from assms have "x \<in> {} \<union> set xs" by simp
  from first_wins_later_duplicate [OF this] show ?thesis
    unfolding spec_filter_def None option.case by (rule arg_cong)
next
  case (Some f)
  show ?thesis
    unfolding spec_filter_def Some option.case
    by (simp only: first_wins_filter_later_duplicate [OF assms])
qed

lemma spec_filter_members:
  assumes "e \<in> set (spec_filter history (Some f) limit)"
  shows "e \<in> set history \<and> is_substring f e"
proof -
  from assms have "e \<in> set (first_wins {} (filter (starts_with f) history) @
                            first_wins {} (filter (substring_only f) history))"
    unfolding spec_filter_def by (auto dest: in_set_takeD)
  then have "e \<in> set (filter (starts_with f) history) \<or>
             e \<in> set (filter (substring_only f) history)"
    using first_wins_subset [of "{}" "filter (starts_with f) history"]
          first_wins_subset [of "{}" "filter (substring_only f) history"]
    by auto
  moreover have "starts_with f e \<Longrightarrow> is_substring f e"
    by (cases e) (auto simp: starts_with_def)
  ultimately show ?thesis by (auto simp: substring_only_def)
qed

section \<open>Facts about the selection loop\<close>

lemmas key_defs = KEY_BACKSPACE_def KEY_UP_def KEY_DOWN_def KEY_CTRL_E_def KEY_CTRL_A_def
  KEY_TERMINAL_RESIZE_def

lemma makeSelection_empty_fragment:
  "makeSelection (Some []) items m = makeSelection None items m"
  by (simp add: makeSelection_spec_filter spec_filter_def starts_with_def substring_only_def)

lemma printSelection_eq:
  "printSelection m pfx items s =
     (let sel = makeSelection pfx items m
      in (if sel = [] then [] else sel ! 0,
          s\<lparr>selection := sel, selectionSize := int (length sel)\<rparr>))"
  by (simp add: printSelection_def makeSelection_globals_def allocSelection_def Let_def)

lemma on_backspace_eq:
  "on_backspace items m s = Some (after_edit items m (butlast (prefix s)) s)"
  by (simp add: on_backspace_def printSelection_eq makeSelection_globals_def allocSelection_def
      after_edit_def Let_def)

lemma on_default_eq:
  assumes "c \<noteq> 27" and "key_string c = Some ks" and "length (prefix s) + length ks < 500"
  shows "on_default items m c s = Some (after_edit items m (prefix s @ ks) s)"
  using assms by (simp add: on_default_def printSelection_eq after_edit_def Let_def)

lemma on_default_Some:
  assumes "on_default items m c s = Some s'" and "c \<noteq> 27"
  shows "\<exists>ks. key_string c = Some ks \<and> s' = after_edit items m (prefix s @ ks) s"
  using assms
  by (auto simp add: on_default_def printSelection_eq after_edit_def Let_def
      split: option.splits if_splits)

lemma key_string_typed: "typed_key c \<Longrightarrow> key_string c = Some [char_of c]"
  by (simp add: typed_key_def key_string_def key_byte_def)

lemma loop_body_typed:
  assumes "typed_key c" and "length (prefix s) + 1 < 500"
  shows "loop_body items maxy c s
           = Some (after_edit items (getMaxHistoryItems maxy) (prefix s @ [char_of c]) s)"
proof -
  from assms(1) have c: "c \<noteq> 27" "0 < c" "c < 256" "c \<noteq> 1" "c \<noteq> 5" "c \<noteq> 10" "c \<noteq> 65"
    "c \<noteq> 66" "c \<noteq> 91" "c \<noteq> 127"
    by (simp_all add: typed_key_def)
  then have "loop_body items maxy c s = on_default items (getMaxHistoryItems maxy) c s"
    by (simp add: loop_body_def key_defs)
  also have "\<dots> = Some (after_edit items (getMaxHistoryItems maxy) (prefix s @ [char_of c]) s)"
    using assms(2) by (simp add: on_default_eq [OF c(1) key_string_typed [OF assms(1)]])
  finally show ?thesis .
qed

lemma loop_body_backspace:
  assumes "b = KEY_BACKSPACE \<or> b = 127"
  shows "loop_body items maxy b s
           = Some (after_edit items (getMaxHistoryItems maxy) (butlast (prefix s)) s)"
  using assms by (auto simp add: loop_body_def key_defs on_backspace_eq)

lemma after_edit_simps:
  "prefix (after_edit items m p s) = p"
  "selection (after_edit items m p s) = makeSelection (Some p) items m"
  "selectionCursorPosition (after_edit items m p s) = selectionCursorPosition s"
  "previousSelectionCursorPosition (after_edit items m p s) = previousSelectionCursorPosition s"
  "loop_done (after_edit items m p s) = loop_done s"
  "after_edit items m p (after_edit items m q s) = after_edit items m p s"
  by (simp_all add: after_edit_def Let_def)

lemma typed_run:
  assumes "\<forall>c \<in> set cs. typed_key c" and "length (prefix s) + length cs < 500"
    and "\<not> loop_done s"
  shows "selectionLoop_from items (map (Pair maxy) cs) s
           = Some (if cs = [] then s
                   else after_edit items (getMaxHistoryItems maxy) (prefix s @ map char_of cs) s)"
  using assms
proof (induction cs arbitrary: s)
  case Nil
  then show ?case by simp
next
  case (Cons c cs)
  let ?s1 = "after_edit items (getMaxHistoryItems maxy) (prefix s @ [char_of c]) s"
  from Cons.prems have step: "loop_body items maxy c s = Some ?s1"
    by (intro loop_body_typed) simp_all
  from Cons.prems have "\<forall>c \<in> set cs. typed_key c" "length (prefix ?s1) + length cs < 500"
    "\<not> loop_done ?s1"
    by (simp_all add: after_edit_simps)
  from Cons.IH [OF this] Cons.prems(3) step show ?case
    by (simp add: after_edit_simps)
qed

lemma backspace_run:
  assumes "\<forall>b \<in> set bs. b = KEY_BACKSPACE \<or> b = 127" and "\<not> loop_done s"
  shows "selectionLoop_from items (map (Pair maxy) bs) s
           = Some (if bs = [] then s
                   else after_edit items (getMaxHistoryItems maxy)
                          (take (length (prefix s) - length bs) (prefix s)) s)"
  using assms
proof (induction bs arbitrary: s)
  case Nil
  then show ?case by simp
next
  case (Cons b bs)
  let ?s1 = "after_edit items (getMaxHistoryItems maxy) (butlast (prefix s)) s"
  from Cons.prems have step: "loop_body items maxy b s = Some ?s1"
    by (intro loop_body_backspace) simp
  from Cons.prems have "\<forall>b \<in> set bs. b = KEY_BACKSPACE \<or> b = 127" "\<not> loop_done ?s1"
    by (simp_all add: after_edit_simps)
  from Cons.IH [OF this] Cons.prems(2) step show ?case
    by (simp add: after_edit_simps butlast_conv_take min_def)
qed

lemma selectionLoop_from_append:
  "selectionLoop_from items (ks @ ks') s =
     (case selectionLoop_from items ks s of
        None \<Rightarrow> None
      | Some s' \<Rightarrow> selectionLoop_from items ks' s')"
proof (induction ks arbitrary: s)
  case Nil
  then show ?case by simp
next
  case (Cons k ks)
  obtain maxy c where k: "k = (maxy, c)" by (cases k)
  have stop: "loop_done s \<Longrightarrow> selectionLoop_from items ks' s = Some s"
    by (cases ks') auto
  show ?case
    by (cases "loop_body items maxy c s") (simp_all add: k Cons.IH stop)
qed

lemma init_simps:
  "prefix (selectionLoop_init items maxy) = []"
  "selection (selectionLoop_init items maxy) = makeSelection None items (getMaxHistoryItems maxy)"
  "\<not> loop_done (selectionLoop_init items maxy)"
  "selectionCursorPosition (selectionLoop_init items maxy) = - 1"
  "result (selectionLoop_init items maxy) = []"
  by (simp_all add: selectionLoop_init_def printSelection_eq Let_def SELECTION_CURSOR_IN_PROMPT_def)

lemma loop_body_ignored:
  assumes "c \<in> {KEY_TERMINAL_RESIZE, KEY_CTRL_A, KEY_CTRL_E, 91, 27}"
  shows "loop_body items maxy c s = Some s"
  using assms by (auto simp add: loop_body_def key_defs on_default_def)

lemma loop_body_edit_Some:
  assumes "loop_body items maxy c s = Some s'"
    and "c \<notin> {KEY_TERMINAL_RESIZE, KEY_CTRL_A, KEY_CTRL_E, 91, KEY_UP, 65, KEY_DOWN, 66, 10, 27}"
  shows "\<exists>p. s' = after_edit items (getMaxHistoryItems maxy) p s
             \<and> (if c = KEY_BACKSPACE \<or> c = 127 then p = butlast (prefix s)
                 else \<exists>ks. key_string c = Some ks \<and> p = prefix s @ ks)"
proof (cases "c = KEY_BACKSPACE \<or> c = 127")
  case True
  with assms(1) show ?thesis by (simp add: loop_body_backspace)
next
  case False
  with assms have "on_default items (getMaxHistoryItems maxy) c s = Some s'" and "c \<noteq> 27"
    by (simp_all add: loop_body_def)
  from on_default_Some [OF this] False show ?thesis by auto
qed

lemma loop_body_done_only_enter:
  assumes "loop_body items maxy c s = Some s'" and "\<not> loop_done s" and "loop_done s'"
  shows "c = 10"
proof (rule ccontr)
  assume c: "c \<noteq> 10"
  consider "c \<in> {KEY_TERMINAL_RESIZE, KEY_CTRL_A, KEY_CTRL_E, 91, 27}"
    | "c = KEY_UP \<or> c = 65" | "c = KEY_DOWN \<or> c = 66"
    | "c \<notin> {KEY_TERMINAL_RESIZE, KEY_CTRL_A, KEY_CTRL_E, 91, KEY_UP, 65, KEY_DOWN, 66, 10, 27}"
    using c by blast
  then show False
  proof cases
    case 1
    from loop_body_ignored [OF this] assms show False by simp
  next
    case 2
    with assms show False
      by (auto simp add: loop_body_def key_defs on_up_def split: if_splits)
  next
    case 3
    with assms show False
      by (auto simp add: loop_body_def key_defs on_down_def Let_def split: if_splits)
  next
    case 4
    from loop_body_edit_Some [OF assms(1) this] assms(2,3) show False
      by (auto simp add: after_edit_simps)
  qed
qed

lemma accept_in_prompt:
  assumes "selectionCursorPosition s = SELECTION_CURSOR_IN_PROMPT"
  shows "loop_body items maxy 10 s = Some (s\<lparr>loop_done := True\<rparr>)"
  using assms by (simp add: loop_body_def key_defs on_enter_def)

lemma result_after_edit:
  "result (after_edit items m p s) =
     (case makeSelection (Some p) items m of [] \<Rightarrow> [] | l # ls \<Rightarrow> l)"
  by (simp add: after_edit_def Let_def split: list.splits)

lemma down_on_filled_list:
  assumes "c = KEY_DOWN \<or> c = 66"
    and "selectionSize s = int (length (selection s))" and "selection s \<noteq> []"
    and "selectionCursorPosition s = SELECTION_CURSOR_IN_PROMPT
         \<or> (0 \<le> selectionCursorPosition s \<and> selectionCursorPosition s < selectionSize s)"
  shows "\<exists>s'. loop_body items maxy c s = Some s'
           \<and> selectionCursorPosition s' = (selectionCursorPosition s + 1) mod selectionSize s
           \<and> selection s' = selection s \<and> prefix s' = prefix s"
proof -
  from assms(2,3) have n: "0 < selectionSize s" by simp
  show ?thesis
  proof (cases "selectionCursorPosition s + 1 < selectionSize s")
    case True
    with assms(1,4) show ?thesis
      by (auto simp add: loop_body_def key_defs on_down_def Let_def
          SELECTION_CURSOR_IN_PROMPT_def)
  next
    case False
    with assms(4) n have "selectionCursorPosition s + 1 = selectionSize s"
      by (auto simp add: SELECTION_CURSOR_IN_PROMPT_def)
    with False assms(1) show ?thesis
      by (auto simp add: loop_body_def key_defs on_down_def Let_def)
  qed
qed

lemma up_moves_towards_prompt:
  assumes "c = KEY_UP \<or> c = 65"
  shows "\<exists>s'. loop_body items maxy c s = Some s'
           \<and> selectionCursorPosition s' =
               (if selectionCursorPosition s > SELECTION_CURSOR_IN_PROMPT
                then selectionCursorPosition s - 1 else selectionCursorPosition s)
           \<and> selection s' = selection s \<and> prefix s' = prefix s"
  using assms by (auto simp add: loop_body_def key_defs on_up_def)

text \<open>
  What the loop does with typed characters and Backspace as long as the buffer
  \<open>prefix\<close> holds them: fewer than 500 characters typed and then at least as many
  Backspace keys give the selection of the start again. The 500th character overruns the
  buffer.
\<close>

lemma typed_then_erased:
  assumes "\<forall>c \<in> set cs. typed_key c" and "length cs < 500"
    and "\<forall>b \<in> set bs. b = KEY_BACKSPACE \<or> b = 127" and "length cs \<le> length bs"
  shows "\<exists>s1 s2. selectionLoop items maxy (map (Pair maxy) cs) = Some s1
           \<and> prefix s1 = map char_of cs
           \<and> selectionLoop items maxy (map (Pair maxy) (cs @ bs)) = Some s2
           \<and> prefix s2 = []
           \<and> selection s2 = selection (selectionLoop_init items maxy)
           \<and> selection s2 = makeSelection None items (getMaxHistoryItems maxy)"
proof -
  let ?i = "selectionLoop_init items maxy"
  let ?m = "getMaxHistoryItems maxy"
  let ?s1 = "if cs = [] then ?i else after_edit items ?m (map char_of cs) ?i"
  let ?s2 = "if bs = [] then ?s1
             else after_edit items ?m (take (length (prefix ?s1) - length bs) (prefix ?s1)) ?s1"
  have r1: "selectionLoop_from items (map (Pair maxy) cs) ?i = Some ?s1"
    using typed_run [OF assms(1), of ?i items maxy] assms(2) by (simp add: init_simps)
  have nd: "\<not> loop_done ?s1" by (simp add: init_simps after_edit_simps)
  have r2: "selectionLoop_from items (map (Pair maxy) bs) ?s1 = Some ?s2"
    using backspace_run [OF assms(3) nd] by simp
  have p1: "prefix ?s1 = map char_of cs" by (simp add: init_simps after_edit_simps)
  have run: "selectionLoop items maxy (map (Pair maxy) (cs @ bs)) = Some ?s2"
    unfolding selectionLoop_def map_append selectionLoop_from_append r1 option.case r2 ..
  have p2: "prefix ?s2 = []"
    using assms(4) p1 by (auto simp add: init_simps after_edit_simps)
  have sel: "selection ?s2 = makeSelection None items ?m"
  proof (cases "bs = []")
    case True
    with assms(4) have "cs = []" by simp
    with True show ?thesis by (simp add: init_simps)
  next
    case False
    with assms(4) p1 show ?thesis
      by (simp add: after_edit_simps makeSelection_empty_fragment)
  qed
  from r1 p1 run p2 sel show ?thesis
    unfolding selectionLoop_def by (intro exI [of _ ?s1] exI [of _ ?s2]) (simp add: init_simps)
qed

lemma typed_key_overflow:
  assumes "typed_key c" and "length (prefix s) = 499"
  shows "loop_body items maxy c s = None"
proof -
  from assms(1) have c: "c \<noteq> 27" "0 < c" "c < 256" "c \<noteq> 1" "c \<noteq> 5" "c \<noteq> 10" "c \<noteq> 65"
    "c \<noteq> 66" "c \<noteq> 91" "c \<noteq> 127"
    by (simp_all add: typed_key_def)
  then have "loop_body items maxy c s = on_default items (getMaxHistoryItems maxy) c s"
    by (simp add: loop_body_def key_defs)
  also have "\<dots> = None"
    using c(1) assms(2) by (simp add: on_default_def key_string_typed [OF assms(1)])
  finally show ?thesis .
qed

lemma typed_run_overflow:
  assumes "typed_key c"
  shows "selectionLoop items maxy (map (Pair maxy) (replicate 499 c @ [c])) = None"
proof -
  let ?i = "selectionLoop_init items maxy"
  let ?s = "after_edit items (getMaxHistoryItems maxy) (map char_of (replicate 499 c)) ?i"
  have all: "\<forall>k \<in> set (replicate 499 c). typed_key k" using assms by simp
  have r1: "selectionLoop_from items (map (Pair maxy) (replicate 499 c)) ?i = Some ?s"
    using typed_run [OF all, of ?i items maxy] by (simp add: init_simps)
  have full: "length (prefix ?s) = 499" by (simp add: after_edit_simps)
  have nd: "\<not> loop_done ?s" by (simp add: after_edit_simps init_simps)
  have r2: "selectionLoop_from items (map (Pair maxy) [c]) ?s = None"
    using nd typed_key_overflow [OF assms full] by simp
  show ?thesis
    unfolding selectionLoop_def map_append selectionLoop_from_append r1 option.case r2 ..
qed

text \<open>
  A Backspace or character key recomputes the selection from the new fragment and does
  not touch the cursor index; a resize key changes nothing; no key but Up and Down moves
  the cursor.
\<close>

lemma edit_keeps_cursor:
  "loop_body items maxy KEY_TERMINAL_RESIZE s = Some s
   \<and> (c \<notin> {KEY_TERMINAL_RESIZE, KEY_CTRL_A, KEY_CTRL_E, 91, KEY_UP, 65, KEY_DOWN, 66, 10, 27}
        \<longrightarrow> loop_body items maxy c s = Some s'
        \<longrightarrow> selection s' = makeSelection (Some (prefix s')) items (getMaxHistoryItems maxy)
            \<and> selectionCursorPosition s' = selectionCursorPosition s)
   \<and> (c \<notin> {KEY_UP, 65, KEY_DOWN, 66}
        \<longrightarrow> loop_body items maxy c s = Some s'
        \<longrightarrow> selectionCursorPosition s' = selectionCursorPosition s)"
proof (intro conjI impI)
  show "loop_body items maxy KEY_TERMINAL_RESIZE s = Some s"
    by (rule loop_body_ignored) simp
next
  assume "c \<notin> {KEY_TERMINAL_RESIZE, KEY_CTRL_A, KEY_CTRL_E, 91, KEY_UP, 65, KEY_DOWN, 66, 10, 27}"
    and "loop_body items maxy c s = Some s'"
  from loop_body_edit_Some [OF this(2) this(1)]
  obtain p where s': "s' = after_edit items (getMaxHistoryItems maxy) p s" by blast
  show "selection s' = makeSelection (Some (prefix s')) items (getMaxHistoryItems maxy)"
    by (simp add: s' after_edit_simps)
  show "selectionCursorPosition s' = selectionCursorPosition s"
    by (simp add: s' after_edit_simps)
next
  assume nav: "c \<notin> {KEY_UP, 65, KEY_DOWN, 66}" and step: "loop_body items maxy c s = Some s'"
  consider "c \<in> {KEY_TERMINAL_RESIZE, KEY_CTRL_A, KEY_CTRL_E, 91, 27}" | "c = 10"
    | "c \<notin> {KEY_TERMINAL_RESIZE, KEY_CTRL_A, KEY_CTRL_E, 91, KEY_UP, 65, KEY_DOWN, 66, 10, 27}"
    using nav by blast
  then show "selectionCursorPosition s' = selectionCursorPosition s"
  proof cases
    case 1
    from loop_body_ignored [OF this] step show ?thesis by simp
  next
    case 2
    with step show ?thesis
      by (auto simp add: loop_body_def key_defs on_enter_def allocSelection_def
          split: if_splits)
  next
    case 3
    from loop_body_edit_Some [OF step this] show ?thesis
      by (auto simp add: after_edit_simps)
  qed
qed


section \<open>Claims about the filter\<close>

text \<open>
  C1. The filter scans the history in two ordered phases: the result is the bounded
  concatenation of the lines that start with the fragment, in history order, and the
  lines that contain the fragment only at a non-zero offset, in history order, each text
  taken once. This is the equality of \<open>makeSelection\<close> with the filter as the
  specification words it. For the history abcd, xabc, abce and the fragment ab, with room
  for three lines or more, the result is abcd, abce, xabc.
\<close>

theorem makeSelection_phase_order:
  "makeSelection (Some fragment) history limit = spec_filter history (Some fragment) limit
   \<and> (3 \<le> limit \<longrightarrow>
        makeSelection (Some ''ab'') [''abcd'', ''xabc'', ''abce''] limit
          = [''abcd'', ''abce'', ''xabc''])"
proof
  show "makeSelection (Some fragment) history limit = spec_filter history (Some fragment) limit"
    by (rule makeSelection_spec_filter)
  show "3 \<le> limit \<longrightarrow>
        makeSelection (Some ''ab'') [''abcd'', ''xabc'', ''abce''] limit
          = [''abcd'', ''abce'', ''xabc'']"
    by (simp add: makeSelection_spec_filter spec_filter_def starts_with_def substring_only_def)
qed

theorem makeSelection_phase_order_witness:
  "makeSelection (Some ''ab'') [''abcd'', ''xabc'', ''abce''] 3 = [''abcd'', ''abce'', ''xabc'']
   \<and> makeSelection (Some ''ab'') [''xabc'', ''abcd'', ''xabc'', ''abxab'', ''abcd'', ''zab''] 3
       = [''abcd'', ''abxab'', ''xabc'']"
  using makeSelection_phase_order [of "''ab''" "[''xabc'', ''abcd'', ''xabc'', ''abxab'', ''abcd'', ''zab'']" 3]
  by (simp add: spec_filter_def starts_with_def substring_only_def)

text \<open>
  C2. Whatever the history, the fragment (also none) and the limit, the returned list holds
  no text twice, across both phases; and the first occurrence of a text wins: a later
  occurrence of a line that already occurs earlier in the history has no influence on the
  result.
\<close>

theorem makeSelection_no_duplicates:
  "distinct (makeSelection fragment history limit)
   \<and> (x \<in> set xs \<longrightarrow>
        makeSelection fragment (xs @ x # ys) limit = makeSelection fragment (xs @ ys) limit)"
proof
  show "distinct (makeSelection fragment history limit)"
    by (simp only: makeSelection_spec_filter spec_filter_distinct)
  show "x \<in> set xs \<longrightarrow>
        makeSelection fragment (xs @ x # ys) limit = makeSelection fragment (xs @ ys) limit"
    by (simp add: makeSelection_spec_filter spec_filter_later_duplicate)
qed

theorem makeSelection_no_duplicates_witness:
  "distinct (makeSelection (Some ''a'') [''ab'', ''ba'', ''ab'', ''ba''] 5)
   \<and> makeSelection None ([''ls'', ''cd''] @ ''ls'' # [''pwd'']) 5
       = makeSelection None ([''ls'', ''cd''] @ [''pwd'']) 5"
  using makeSelection_no_duplicates [of "Some ''a''" "[''ab'', ''ba'', ''ab'', ''ba'']" 5]
        makeSelection_no_duplicates [where x = "''ls''" and xs = "[''ls'', ''cd'']"
          and fragment = None and ys = "[''pwd'']" and limit = 5]
  by simp

text \<open>
  C3 (as amended). The limit is a C \<open>int\<close>. For every history and fragment (also none),
  a limit that is not negative bounds the length of the returned list, and a limit that
  is zero or negative gives the empty list.
\<close>

theorem makeSelection_bounded:
  "(0 \<le> limit \<longrightarrow> int (length (makeSelection fragment history limit)) \<le> limit)
   \<and> (limit \<le> 0 \<longrightarrow> makeSelection fragment history limit = [])"
proof -
  have "length (makeSelection fragment history limit) \<le> nat limit"
    by (simp only: makeSelection_spec_filter spec_filter_length)
  then show ?thesis by auto
qed

theorem makeSelection_bounded_witness:
  "int (length (makeSelection None [''ls'', ''cd'', ''pwd''] 2)) \<le> 2
   \<and> makeSelection (Some ''l'') [''ls'', ''cd'', ''pwd''] 0 = []"
  using makeSelection_bounded [of 2 None "[''ls'', ''cd'', ''pwd'']"]
        makeSelection_bounded [of 0 "Some ''l''" "[''ls'', ''cd'', ''pwd'']"]
  by simp

text \<open>
  C3 as stated fails for a negative limit, which \<open>getMaxHistoryItems\<close> yields on a
  terminal of fewer than six rows: nothing is selected, and the length zero is not at
  most the limit.
\<close>

theorem makeSelection_negative_limit:
  "\<not> int (length (makeSelection None [''ls''] (- 1))) \<le> - 1"
  by (simp add: makeSelection_def hs_init_def)

text \<open>
  C10. With a fragment given, every entry of the returned list is one of the history lines,
  unchanged, and contains the fragment: \<open>strstr\<close> finds it, which is to say that the
  entry is some text, the fragment, and some text.
\<close>

theorem makeSelection_entries_match:
  "\<forall>e \<in> set (makeSelection (Some fragment) history limit).
     e \<in> set history \<and> strstr e fragment \<noteq> None \<and> (\<exists>a b. e = a @ fragment @ b)"
proof
  fix e
  assume "e \<in> set (makeSelection (Some fragment) history limit)"
  then have "e \<in> set (spec_filter history (Some fragment) limit)"
    by (simp only: makeSelection_spec_filter)
  then have "e \<in> set history \<and> is_substring fragment e"
    by (rule spec_filter_members)
  then show "e \<in> set history \<and> strstr e fragment \<noteq> None \<and> (\<exists>a b. e = a @ fragment @ b)"
    using strstr_some_iff [of e fragment] is_substring_iff [of fragment e] by blast
qed

theorem makeSelection_entries_match_witness:
  "''xabc'' \<in> set (makeSelection (Some ''ab'') [''abcd'', ''xabc'', ''zzz''] 5)
   \<and> ''xabc'' \<in> set [''abcd'', ''xabc'', ''zzz'']
   \<and> strstr ''xabc'' ''ab'' \<noteq> None
   \<and> (\<exists>a b. ''xabc'' = a @ ''ab'' @ b)"
proof -
  have m: "''xabc'' \<in> set (makeSelection (Some ''ab'') [''abcd'', ''xabc'', ''zzz''] 5)"
    by (simp add: makeSelection_def hs_init_def hs_contains_def hs_add_def)
  from makeSelection_entries_match [of "''ab''" "[''abcd'', ''xabc'', ''zzz'']" 5] m
  have "''xabc'' \<in> set [''abcd'', ''xabc'', ''zzz''] \<and> strstr ''xabc'' ''ab'' \<noteq> None
        \<and> (\<exists>a b. ''xabc'' = a @ ''ab'' @ b)"
    by (rule bspec)
  with m show ?thesis by simp
qed

section \<open>Claims about the selection loop\<close>

text \<open>
  C9, at the failing input: 500 characters typed (here the key g), to be followed by
  Backspace keys. The 500th \<open>strcat\<close> writes past the buffer \<open>prefix[500]\<close>, so the
  loop has no defined state any more and nothing is restored. With 499 characters the
  buffer holds, and 499 Backspace keys give the selection of the start again.
\<close>

theorem typing_500_characters_overruns_prefix:
  "selectionLoop [''git status'', ''go build'', ''ls''] 24
      (map (Pair 24) (replicate 499 103 @ [103])) = None
   \<and> selectionLoop [''git status'', ''go build'', ''ls''] 24
      (map (Pair 24) (replicate 499 103 @ [103] @ replicate 500 127)) = None
   \<and> map_option selection
        (selectionLoop [''git status'', ''go build'', ''ls''] 24
           (map (Pair 24) (replicate 499 103 @ replicate 499 127)))
       = Some (selection (selectionLoop_init [''git status'', ''go build'', ''ls''] 24))"
proof (intro conjI)
  have t: "typed_key 103" by (simp add: typed_key_def)
  show o: "selectionLoop [''git status'', ''go build'', ''ls''] 24
      (map (Pair 24) (replicate 499 103 @ [103])) = None"
    by (rule typed_run_overflow [OF t])
  have "selectionLoop [''git status'', ''go build'', ''ls''] 24
      (map (Pair 24) ((replicate 499 103 @ [103]) @ replicate 500 127)) = None"
    using o unfolding selectionLoop_def map_append [of _ "replicate 499 103 @ [103]"]
      selectionLoop_from_append
    by simp
  then show "selectionLoop [''git status'', ''go build'', ''ls''] 24
      (map (Pair 24) (replicate 499 103 @ [103] @ replicate 500 127)) = None"
    by simp
  have h1: "\<forall>c \<in> set (replicate 499 103). typed_key c" using t by simp
  have h2: "length (replicate 499 (103 :: int)) < 500" by simp
  have h3: "\<forall>b \<in> set (replicate 499 127). b = KEY_BACKSPACE \<or> b = 127" by simp
  have h4: "length (replicate 499 (103 :: int)) \<le> length (replicate 499 (127 :: int))" by simp
  from typed_then_erased [OF h1 h2 h3 h4, of "[''git status'', ''go build'', ''ls'']" 24]
  show "map_option selection
        (selectionLoop [''git status'', ''go build'', ''ls''] 24
           (map (Pair 24) (replicate 499 103 @ replicate 499 127)))
       = Some (selection (selectionLoop_init [''git status'', ''go build'', ''ls''] 24))"
    by auto
qed


text \<open>
  C4, at the failing input: on a history of five lines, Down five times puts the cursor on
  index 4, and typing g then leaves two lines in the selection. The cursor stays on index
  4, it does not fall back to the prompt, and Enter then reads \<open>selection[4]\<close>, an
  entry that was never written.
\<close>

theorem cursor_not_clamped:
  "map_option selectionCursorPosition
     (selectionLoop [''ga'', ''gb'', ''c'', ''d'', ''e''] 24
        [(24, 66), (24, 66), (24, 66), (24, 66), (24, 66), (24, 103)]) = Some 4
   \<and> map_option selection
     (selectionLoop [''ga'', ''gb'', ''c'', ''d'', ''e''] 24
        [(24, 66), (24, 66), (24, 66), (24, 66), (24, 66), (24, 103)]) = Some [''ga'', ''gb'']
   \<and> selectionLoop [''ga'', ''gb'', ''c'', ''d'', ''e''] 24
        [(24, 66), (24, 66), (24, 66), (24, 66), (24, 66), (24, 103), (24, 10)] = None"
  by code_simp


text \<open>
  C5, at the failing input: Enter as the first key, on a history of three lines. The
  selection holds the three lines and the loop ends, but the result is the empty string:
  the value that \<open>printSelection\<close> returns before the loop is not stored in
  \<open>result\<close>, as it is after every Backspace and character key. After typing g, Enter
  does return the first match.
\<close>

theorem accept_in_initial_state:
  "map_option result
     (selectionLoop [''git status'', ''go build'', ''grep x''] 24 [(24, 10)]) = Some []
   \<and> map_option loop_done
     (selectionLoop [''git status'', ''go build'', ''grep x''] 24 [(24, 10)]) = Some True
   \<and> map_option selection
     (selectionLoop [''git status'', ''go build'', ''grep x''] 24 [(24, 10)])
       = Some [''git status'', ''go build'', ''grep x'']
   \<and> map_option result
     (selectionLoop [''git status'', ''go build'', ''grep x''] 24 [(24, 103), (24, 10)])
       = Some ''git status''"
  by code_simp

text \<open>
  C6 (as amended). Escape, the key 27, is ignored: the iteration leaves the whole session
  as it was, so the loop goes on. The only key that ends the loop is Enter, the key 10.
\<close>

theorem escape_is_ignored:
  "loop_body items maxy 27 s = Some s
   \<and> (\<not> loop_done s \<longrightarrow> loop_body items maxy c s = Some s' \<longrightarrow> loop_done s' \<longrightarrow> c = 10)"
  using loop_body_ignored [of 27 items maxy s] loop_body_done_only_enter [of items maxy c s s']
  by simp

theorem escape_is_ignored_witness:
  "\<not> loop_done (selectionLoop_init [''ls''] 24)
   \<and> loop_body [''ls''] 24 10 (selectionLoop_init [''ls''] 24)
       = Some ((selectionLoop_init [''ls''] 24)\<lparr>loop_done := True\<rparr>)
   \<and> loop_body [''ls''] 24 27 (selectionLoop_init [''ls''] 24)
       = Some (selectionLoop_init [''ls''] 24)"
proof -
  have "loop_body [''ls''] 24 10 (selectionLoop_init [''ls''] 24)
       = Some ((selectionLoop_init [''ls''] 24)\<lparr>loop_done := True\<rparr>)"
    by (simp add: loop_body_def key_defs on_enter_def init_simps SELECTION_CURSOR_IN_PROMPT_def)
  with escape_is_ignored [of "[''ls'']" 24 "selectionLoop_init [''ls''] 24" 10
      "(selectionLoop_init [''ls''] 24)\<lparr>loop_done := True\<rparr>"]
  show ?thesis by (simp add: init_simps)
qed

text \<open>
  C6 as stated fails: after Escape the loop has not ended.
\<close>

theorem escape_does_not_end_the_loop:
  "map_option loop_done (selectionLoop [''ls''] 24 [(24, 27)]) = Some False"
  by code_simp

text \<open>
  C7, at the failing input: a key that is no character and none of the keys the loop
  knows. The control key Ctrl-B (2) is appended to the fragment, and no line matches any
  more; the code 260 of the left arrow key is appended as two bytes; for the error value
  -1 of \<open>wgetch\<close> the bytes read as a string have no end inside the variable. Only the
  keys 410, 1, 5, 91 and 27 are left out (\<open>loop_body_ignored\<close>).
\<close>

theorem control_keys_reach_the_fragment:
  "map_option prefix (selectionLoop [''ls''] 24 [(24, 2)]) = Some [CHR 0x02]
   \<and> map_option selection (selectionLoop [''ls''] 24 [(24, 2)]) = Some []
   \<and> map_option prefix (selectionLoop [''ls''] 24 [(24, 260)]) = Some [CHR 0x04, CHR 0x01]
   \<and> selectionLoop [''ls''] 24 [(24, - 1)] = None"
  by code_simp


text \<open>
  C8, at the failing input: Down with an empty selection (an empty history, or a fragment
  that no line contains) and the cursor in the prompt. The cursor moves to index 0
  although there is no entry, and Enter then reads \<open>selection[0]\<close>, which was never
  written. On a selection that is not empty, Down
  and Up move as the claim says (\<open>down_on_filled_list\<close>, \<open>up_moves_towards_prompt\<close>).
\<close>

theorem down_on_empty_list:
  "map_option selectionCursorPosition (selectionLoop [] 24 [(24, KEY_DOWN)]) = Some 0
   \<and> map_option selection (selectionLoop [] 24 [(24, KEY_DOWN)]) = Some []
   \<and> selectionLoop [] 24 [(24, KEY_DOWN), (24, 10)] = None
   \<and> map_option selectionCursorPosition
        (selectionLoop [''ls''] 24 [(24, 122), (24, KEY_DOWN)]) = Some 0
   \<and> map_option selection (selectionLoop [''ls''] 24 [(24, 122), (24, KEY_DOWN)]) = Some []"
  by code_simp

end
